theory Spec2Isabelle
  imports Complex_Main "HOL-Library.Word" "HOL-Library.Multiset"
begin

unbundle bit_operations_syntax

section \<open>Machine types\<close>

text \<open>
  The firmware runs on a 32-bit ESP32: \<open>size_t\<close> and \<open>uint32_t\<close> are 32-bit words,
  \<open>int16_t\<close> a 16-bit word read with \<open>sint\<close>. The cursors of the sample ring stay below
  the ring's capacity (19200), far from any wrap-around, and are natural numbers.
  A C \<open>float\<close> is modelled by a real number: rounding is not modelled, and the
  statements proved below only use comparisons of stored values and exact arithmetic.
\<close>

type_synonym int16_t = "16 word"
type_synonym uint32_t = "32 word"
type_synonym size_t = "32 word"

section \<open>The audio ring buffer of secure\_webrtc\_dogbark\_detector.cpp\<close>

definition SAMPLES_PER_FRAME :: nat where
  "SAMPLES_PER_FRAME = 320"

definition AUDIO_BUFFER_FRAMES :: nat where
  "AUDIO_BUFFER_FRAMES = 60"

definition AUDIO_BUFFER_SIZE :: nat where
  "AUDIO_BUFFER_SIZE = SAMPLES_PER_FRAME * AUDIO_BUFFER_FRAMES"

text \<open>
  The globals \<open>audioRingBuffer\<close>, \<open>ringBufferWritePos\<close> and \<open>ringBufferReadPos\<close>.
  The array is a store from slot index to sample; the code only ever indexes it with
  one of the two cursors.
\<close>

record ring =
  audioRingBuffer :: "nat \<Rightarrow> int16_t"
  ringBufferWritePos :: nat
  ringBufferReadPos :: nat

text \<open>The state set up by the firmware's \<open>setup\<close>: zeroed array, both cursors 0.\<close>

definition ring_init :: ring where
  "ring_init = \<lparr>audioRingBuffer = (\<lambda>_. 0), ringBufferWritePos = 0, ringBufferReadPos = 0\<rparr>"

text \<open>
  The \<open>for\<close> loop of \<open>writeToRingBuffer\<close>: the samples still to store and the running
  \<open>written\<close> counter; \<open>break\<close> on a full buffer.
\<close>

fun write_loop :: "ring \<Rightarrow> int16_t list \<Rightarrow> nat \<Rightarrow> nat \<times> ring" where
  "write_loop s [] written = (written, s)"
| "write_loop s (x # xs) written =
     (let nextPos = (ringBufferWritePos s + 1) mod AUDIO_BUFFER_SIZE in
      if nextPos \<noteq> ringBufferReadPos s
      then write_loop (s\<lparr>audioRingBuffer := (audioRingBuffer s)(ringBufferWritePos s := x),
                          ringBufferWritePos := nextPos\<rparr>) xs (written + 1)
      else (written, s))"

text \<open>
  \<open>writeToRingBuffer(samples, count)\<close>. The flag \<open>locked\<close> is the outcome of
  \<open>xSemaphoreTake(audioMutex, 50 ms) == pdTRUE\<close>; when the mutex is not obtained the
  function returns 0 and touches nothing.
\<close>

definition writeToRingBuffer :: "bool \<Rightarrow> ring \<Rightarrow> int16_t list \<Rightarrow> nat \<times> ring" where
  "writeToRingBuffer locked s samples = (if locked then write_loop s samples 0 else (0, s))"

text \<open>
  The \<open>while\<close> loop of \<open>readFromRingBuffer\<close>: \<open>k\<close> is \<open>count - read\<close>, \<open>out\<close> the
  prefix \<open>samples[0..read)\<close> of the caller's array filled so far.
\<close>

fun read_loop :: "ring \<Rightarrow> nat \<Rightarrow> int16_t list \<Rightarrow> int16_t list \<times> ring" where
  "read_loop s 0 out = (out, s)"
| "read_loop s (Suc k) out =
     (if ringBufferReadPos s \<noteq> ringBufferWritePos s
      then read_loop (s\<lparr>ringBufferReadPos := (ringBufferReadPos s + 1) mod AUDIO_BUFFER_SIZE\<rparr>)
             k (out @ [audioRingBuffer s (ringBufferReadPos s)])
      else (out, s))"

text \<open>
  \<open>readFromRingBuffer(samples, count)\<close>: the returned list is \<open>samples[0..read)\<close>, its
  length the returned count.
\<close>

definition readFromRingBuffer :: "bool \<Rightarrow> ring \<Rightarrow> nat \<Rightarrow> int16_t list \<times> ring" where
  "readFromRingBuffer locked s cnt = (if locked then read_loop s cnt [] else ([], s))"

text \<open>The loop of \<open>peekRingBuffer\<close>, which walks a local copy \<open>pos\<close> of the read cursor.\<close>

fun peek_loop :: "ring \<Rightarrow> nat \<Rightarrow> nat \<Rightarrow> int16_t list \<Rightarrow> int16_t list" where
  "peek_loop s pos 0 out = out"
| "peek_loop s pos (Suc k) out =
     (if pos \<noteq> ringBufferWritePos s
      then peek_loop s ((pos + 1) mod AUDIO_BUFFER_SIZE) k (out @ [audioRingBuffer s pos])
      else out)"

definition peekRingBuffer :: "bool \<Rightarrow> ring \<Rightarrow> nat \<Rightarrow> int16_t list \<times> ring" where
  "peekRingBuffer locked s cnt =
     (if locked then (peek_loop s (ringBufferReadPos s) cnt [], s) else ([], s))"

definition getAvailableSamples :: "ring \<Rightarrow> nat" where
  "getAvailableSamples s =
     (if ringBufferWritePos s \<ge> ringBufferReadPos s
      then ringBufferWritePos s - ringBufferReadPos s
      else AUDIO_BUFFER_SIZE - ringBufferReadPos s + ringBufferWritePos s)"


text \<open>
  Sequences of ring operations, each carrying the outcome of its attempt to take the mutex.
\<close>

datatype ring_op = RingWrite bool "int16_t list" | RingRead bool nat | RingPeek bool nat

fun step :: "ring \<Rightarrow> ring_op \<Rightarrow> ring" where
  "step s (RingWrite l xs) = snd (writeToRingBuffer l s xs)"
| "step s (RingRead l n) = snd (readFromRingBuffer l s n)"
| "step s (RingPeek l n) = snd (peekRingBuffer l s n)"

fun run :: "ring \<Rightarrow> ring_op list \<Rightarrow> ring" where
  "run s [] = s"
| "run s (a # ops) = run (step s a) ops"

text \<open>The samples handed out by the destructive reads of a sequence, in call order.\<close>

fun delivered :: "ring \<Rightarrow> ring_op list \<Rightarrow> int16_t list" where
  "delivered s [] = []"
| "delivered s (RingRead l n # ops) =
     fst (readFromRingBuffer l s n) @ delivered (step s (RingRead l n)) ops"
| "delivered s (a # ops) = delivered (step s a) ops"

text \<open>The samples offered to the writes of a sequence, in call order.\<close>

fun written :: "ring_op list \<Rightarrow> int16_t list" where
  "written [] = []"
| "written (RingWrite l xs # ops) = xs @ written ops"
| "written (a # ops) = written ops"

text \<open>
  A sequence stays within capacity when every write obtains the mutex and the count
  reported by \<open>getAvailableSamples\<close> before it, plus the samples offered, is below
  \<open>AUDIO_BUFFER_SIZE\<close>.
\<close>

fun within_capacity :: "ring \<Rightarrow> ring_op list \<Rightarrow> bool" where
  "within_capacity s [] = True"
| "within_capacity s (RingWrite l xs # ops) =
     (l \<and> getAvailableSamples s + length xs < AUDIO_BUFFER_SIZE \<and>
      within_capacity (step s (RingWrite l xs)) ops)"
| "within_capacity s (a # ops) = within_capacity (step s a) ops"

text \<open>What is still buffered: the result of reading everything that is available.\<close>

definition drain :: "ring \<Rightarrow> int16_t list" where
  "drain s = fst (readFromRingBuffer True s (getAvailableSamples s))"

text \<open>Both cursors index the array: the invariant kept by all three operations.\<close>

definition ring_ok :: "ring \<Rightarrow> bool" where
  "ring_ok s = (ringBufferWritePos s < AUDIO_BUFFER_SIZE \<and> ringBufferReadPos s < AUDIO_BUFFER_SIZE)"

text \<open>The buffered samples, oldest first: the slots from the read cursor up to the write cursor.\<close>

definition ring_contents :: "ring \<Rightarrow> int16_t list" where
  "ring_contents s =
     map (\<lambda>i. audioRingBuffer s ((ringBufferReadPos s + i) mod AUDIO_BUFFER_SIZE))
       [0..<getAvailableSamples s]"

text \<open>A full ring: the write cursor is one slot behind the read cursor.\<close>

definition ring_full :: ring where
  "ring_full = \<lparr>audioRingBuffer = (\<lambda>_. 7), ringBufferWritePos = 19199, ringBufferReadPos = 0\<rparr>"

section \<open>The capture ring of webrtc-firmware.cpp\<close>

definition RING_BUFFER_SIZE :: nat where
  "RING_BUFFER_SIZE = 16000 * 2"

text \<open>
  The globals \<open>ringBuffer\<close> (a pointer, null until allocated), \<open>ringWritePos\<close>,
  \<open>ringReadPos\<close>, \<open>ringAvailable\<close> and the counter \<open>audioStats.bufferOverruns\<close>.
\<close>

record capture_ring =
  ringBuffer :: "(nat \<Rightarrow> int16_t) option"
  ringWritePos :: nat
  ringReadPos :: nat
  ringAvailable :: nat
  bufferOverruns :: uint32_t

text \<open>
  The block "Add to ring buffer" in the sample loop of \<open>audioProcessTask\<close>, for one
  converted sample.
\<close>

definition ring_add :: "capture_ring \<Rightarrow> int16_t \<Rightarrow> capture_ring" where
  "ring_add s sample =
     (case ringBuffer s of
        None \<Rightarrow> s
      | Some buf \<Rightarrow>
          let s1 = s\<lparr>ringBuffer := Some (buf(ringWritePos s := sample)),
                     ringWritePos := (ringWritePos s + 1) mod RING_BUFFER_SIZE\<rparr>
          in if ringAvailable s1 < RING_BUFFER_SIZE
             then s1\<lparr>ringAvailable := ringAvailable s1 + 1\<rparr>
             else s1\<lparr>ringReadPos := (ringReadPos s1 + 1) mod RING_BUFFER_SIZE,
                     bufferOverruns := bufferOverruns s1 + 1\<rparr>)"

text \<open>
  The sample loop of \<open>audioProcessTask\<close> over the words read from I2S: each 32-bit word
  is converted with \<open>(w >> 16) & 0xFFFF\<close> (an arithmetic shift of the \<open>int32_t\<close>) and
  added to the ring. The local level statistics of the loop do not touch the ring and are
  left out.
\<close>

definition i2s_to_pcm :: "32 word \<Rightarrow> int16_t" where
  "i2s_to_pcm w = ucast (signed_drop_bit 16 w AND 0xFFFF)"

fun audioProcessTask_samples :: "capture_ring \<Rightarrow> 32 word list \<Rightarrow> capture_ring" where
  "audioProcessTask_samples s [] = s"
| "audioProcessTask_samples s (w # ws) = audioProcessTask_samples (ring_add s (i2s_to_pcm w)) ws"

text \<open>A full capture ring holding the sample 1 in every slot.\<close>

definition capture_full :: capture_ring where
  "capture_full = \<lparr>ringBuffer = Some (\<lambda>_. 1), ringWritePos = 0, ringReadPos = 0,
     ringAvailable = 32000, bufferOverruns = 0\<rparr>"

section \<open>The noise gate of preprocess.cpp\<close>

text \<open>
  \<open>AudioUtils::softKneeCompress\<close>. \<open>powf(x, 2.0f)\<close> is the square of \<open>x\<close>.
\<close>

definition softKneeCompress :: "real \<Rightarrow> real \<Rightarrow> real \<Rightarrow> real \<Rightarrow> real" where
  "softKneeCompress input threshold ratio knee_width =
     (if input \<le> threshold - knee_width / 2 then input
      else if input \<ge> threshold + knee_width / 2 then threshold + (input - threshold) / ratio
      else let knee_ratio = 1 + (ratio - 1) * ((input - threshold + knee_width / 2) / knee_width)\<^sup>2
           in threshold + (input - threshold) / knee_ratio)"

text \<open>The default argument \<open>knee_width = 0.1f\<close> of the declaration in preprocess.h.\<close>

definition default_knee_width :: real where
  "default_knee_width = 1 / 10"

text \<open>The fields of \<open>PreprocessConfig\<close> and of \<open>Preprocess::Stats\<close> that the gate uses.\<close>

record PreprocessConfig =
  noise_gate_threshold :: real
  noise_gate_ratio :: real

text \<open>
  One iteration of the loop of \<open>Preprocess::noiseGate\<close>: the sample after the iteration
  and whether the activation counter was incremented.
\<close>

definition gate_sample :: "PreprocessConfig \<Rightarrow> real \<Rightarrow> real \<times> bool" where
  "gate_sample c x =
     (let level = \<bar>x\<bar> in
      if level < noise_gate_threshold c
      then let compressed_level = softKneeCompress level (noise_gate_threshold c) (noise_gate_ratio c) default_knee_width;
               gain = (if level > 1 / 10000 then compressed_level / level else 0)
           in (x * gain, True)
      else (x, False))"

text \<open>
  \<open>Preprocess::noiseGate(samples, count)\<close>: the samples after the call and the new value
  of \<open>stats_.noise_gate_activations\<close>.
\<close>

fun noiseGate :: "PreprocessConfig \<Rightarrow> real list \<Rightarrow> uint32_t \<Rightarrow> real list \<times> uint32_t" where
  "noiseGate c [] acts = ([], acts)"
| "noiseGate c (x # xs) acts =
     (let (y, hit) = gate_sample c x;
          (ys, acts') = noiseGate c xs (if hit then acts + 1 else acts)
      in (y # ys, acts'))"


text \<open>A gate with threshold 0.2 and ratio 10.\<close>

definition gate_config :: PreprocessConfig where
  "gate_config = \<lparr>noise_gate_threshold = 1 / 5, noise_gate_ratio = 10\<rparr>"

text \<open>The defaults of preprocess.h: threshold 0.001 and ratio 10.\<close>

definition default_gate_config :: PreprocessConfig where
  "default_gate_config = \<lparr>noise_gate_threshold = 1 / 1000, noise_gate_ratio = 10\<rparr>"

section \<open>The detector of bark\_detector.cpp\<close>

definition SAMPLE_RATE :: uint32_t where
  "SAMPLE_RATE = 16000"

definition FFT_SIZE :: nat where
  "FFT_SIZE = 512"

definition HOP_LENGTH :: nat where
  "HOP_LENGTH = 256"

definition MEL_BANDS :: nat where
  "MEL_BANDS = 40"

definition N_FFT_BINS :: nat where
  "N_FFT_BINS = FFT_SIZE div 2 + 1"

definition MAX_MEDIAN_FILTER_SIZE :: nat where
  "MAX_MEDIAN_FILTER_SIZE = 10"

definition MAX_FILTER_BANKS :: nat where
  "MAX_FILTER_BANKS = MEL_BANDS * N_FFT_BINS"

definition M_PI :: real where
  "M_PI = 3.14159265358979323846"

text \<open>\<open>enum class BarkClass : uint8_t\<close>.\<close>

type_synonym BarkClass = "8 word"

definition DOG_BARK :: BarkClass where
  "DOG_BARK = 0"

definition SPEECH :: BarkClass where
  "SPEECH = 1"

definition AMBIENT :: BarkClass where
  "AMBIENT = 2"

definition SILENCE :: BarkClass where
  "SILENCE = 3"

definition UNKNOWN :: BarkClass where
  "UNKNOWN = 255"

text \<open>
  \<open>timestamp_ms\<close> is \<open>None\<close> while the field of a freshly declared result has not been
  assigned.
\<close>

record DetectionResult =
  detected_class :: BarkClass
  confidence :: real
  timestamp_ms :: "uint32_t option"
  is_bark :: bool

record PerformanceStats =
  inference_time_us :: uint32_t
  avg_inference_time_us :: uint32_t
  preprocessing_time_us :: uint32_t
  total_inferences :: uint32_t
  bark_detections :: uint32_t
  memory_usage_kb :: real

record BarkDetectorConfig =
  confidence_threshold :: real
  min_bark_duration_ms :: uint32_t
  agc_target_level :: real
  noise_gate_threshold :: real
  enable_temporal_filter :: bool
  ema_alpha :: real
  median_filter_size :: "8 word"

text \<open>
  The state of \<open>BarkDetector::Impl\<close>. The data of the interpreter's input and output
  tensors and the last dimension of the output tensor stand for the interpreter;
  \<open>median_buffer\<close> cells are \<open>None\<close> until first written (\<open>new float[n]\<close> does not
  initialise). The scratch arrays \<open>fft_buffer\<close>, \<open>power_spectrum\<close> and \<open>mel_energies\<close>
  are overwritten before they are read in every frame and carry no state. The filterbank
  reads \<open>mel_bands\<close> as an \<open>int\<close>; the arrays of \<open>mel_bands\<close> floats allocated by
  \<open>init_model\<close> keep it far below \<open>2^31\<close>, where the two readings agree.
\<close>

record Impl =
  input_tensor :: "real list"
  output_tensor :: "real list"
  output_dim :: size_t
  tensor_arena_size :: size_t
  mel_filters :: "real list"
  config :: BarkDetectorConfig
  initialized :: bool
  input_size :: size_t
  mel_bands :: size_t
  time_frames :: size_t
  ema_confidence :: "real list"
  median_buffer :: "real option list"
  median_buffer_idx :: nat
  stats :: PerformanceStats
  inference_time_accumulator :: uint32_t

text \<open>
  What the detector takes from outside during one call: \<open>interpreter->Invoke()\<close> as a
  function from the input data and the old output data to the status and the new output
  data, the outcome of \<open>new (std::nothrow)\<close>, and the clock readings in call order.
\<close>

record env =
  Invoke :: "real list \<Rightarrow> real list \<Rightarrow> bool \<times> real list"
  alloc_ok :: bool
  micros_start :: uint32_t
  micros_preproc_start :: uint32_t
  micros_preproc_end :: uint32_t
  micros_end :: uint32_t
  millis_now :: uint32_t

text \<open>
  Undefined behaviour of the C++ code is a value: an index outside an array, a read of a
  cell that was never written, an integer division by zero; so is a loop that never exits.
\<close>

datatype fault = OutOfBounds | UninitializedRead | DivisionByZero | NonTermination

definition rd :: "'a list \<Rightarrow> nat \<Rightarrow> fault + 'a" where
  "rd xs i = (if i < length xs then Inr (xs ! i) else Inl OutOfBounds)"

definition wr :: "'a list \<Rightarrow> nat \<Rightarrow> 'a \<Rightarrow> fault + 'a list" where
  "wr xs i v = (if i < length xs then Inr (xs[i := v]) else Inl OutOfBounds)"

definition rd_init :: "'a option list \<Rightarrow> nat \<Rightarrow> fault + 'a" where
  "rd_init xs i =
     (case rd xs i of Inl e \<Rightarrow> Inl e | Inr None \<Rightarrow> Inl UninitializedRead | Inr (Some v) \<Rightarrow> Inr v)"

subsection \<open>\<open>AudioUtils\<close>\<close>

definition calculate_rms :: "int16_t list \<Rightarrow> real" where
  "calculate_rms samples =
     (if length samples = 0 then 0
      else sqrt ((\<Sum>x\<leftarrow>samples. (real_of_int (sint x) / 32768)\<^sup>2) / real (length samples)))"

definition amplitude_to_db :: "real \<Rightarrow> real" where
  "amplitude_to_db amplitude = (if amplitude < 1 / 10 ^ 10 then - 100 else 20 * log 10 amplitude)"

text \<open>The cast \<open>(int16_t)sample\<close> of a float already clipped to the 16-bit range.\<close>

definition float_to_int16 :: "real \<Rightarrow> int16_t" where
  "float_to_int16 r = word_of_int (if r \<ge> 0 then \<lfloor>r\<rfloor> else \<lceil>r\<rceil>)"

definition apply_agc :: "int16_t list \<Rightarrow> real \<Rightarrow> int16_t list" where
  "apply_agc samples target_level =
     (let rms = calculate_rms samples in
      if rms < 1 / 10 ^ 6 then samples
      else let gain0 = target_level / rms;
               gain = (if gain0 > 4 then 4 else gain0)
           in map (\<lambda>x. let s0 = real_of_int (sint x) * gain;
                            s1 = (if s0 > 32767 then 32767 else s0);
                            s2 = (if s1 < - 32768 then - 32768 else s1)
                        in float_to_int16 s2) samples)"

definition apply_noise_gate :: "int16_t list \<Rightarrow> real \<Rightarrow> bool" where
  "apply_noise_gate samples threshold_db = (amplitude_to_db (calculate_rms samples) > threshold_db)"

subsection \<open>\<open>FFT::fft\<close>\<close>

text \<open>
  \<open>FFT::Complex\<close> with its operators is the type of complex numbers. The inner
  \<open>while (k <= j)\<close> of the bit-reversal permutation has no bound of its own: it returns
  \<open>None\<close> when it does not exit.
\<close>

partial_function (option) bitrev_while :: "int \<Rightarrow> int \<Rightarrow> (int \<times> int) option" where
  "bitrev_while j k = (if k \<le> j then bitrev_while (j - k) (k div 2) else Some (j, k))"

definition swap_at :: "complex list \<Rightarrow> int \<Rightarrow> int \<Rightarrow> fault + complex list" where
  "swap_at data i j =
     (if 0 \<le> i \<and> 0 \<le> j \<and> nat i < length data \<and> nat j < length data
      then Inr (data[nat i := data ! nat j, nat j := data ! nat i])
      else Inl OutOfBounds)"

text \<open>The loop \<open>for (i = 0; i < n - 1; i++)\<close> of the permutation, \<open>m\<close> iterations remaining.\<close>

fun bit_reverse :: "nat \<Rightarrow> int \<Rightarrow> int \<Rightarrow> int \<Rightarrow> complex list \<Rightarrow> (fault + complex list) option" where
  "bit_reverse 0 i j n data = Some (Inr data)"
| "bit_reverse (Suc m) i j n data =
     (case (if i < j then swap_at data i j else Inr data) of
        Inl f \<Rightarrow> Some (Inl f)
      | Inr data' \<Rightarrow>
          (case bitrev_while j (n div 2) of
             None \<Rightarrow> None
           | Some (j', k) \<Rightarrow> bit_reverse m (i + 1) (j' + k) n data'))"

text \<open>The loop \<open>for (j = 0; j < len / 2; j++)\<close> over one block, \<open>m\<close> iterations remaining.\<close>

fun butterflies :: "nat \<Rightarrow> int \<Rightarrow> int \<Rightarrow> int \<Rightarrow> complex \<Rightarrow> complex \<Rightarrow> complex list
    \<Rightarrow> fault + complex list" where
  "butterflies 0 i j len w wlen data = Inr data"
| "butterflies (Suc m) i j len w wlen data =
     (case rd data (nat (i + j)) of
        Inl f \<Rightarrow> Inl f
      | Inr u \<Rightarrow>
          (case rd data (nat (i + j + len div 2)) of
             Inl f \<Rightarrow> Inl f
           | Inr x \<Rightarrow>
               (let v = w * x in
                case wr data (nat (i + j)) (u + v) of
                  Inl f \<Rightarrow> Inl f
                | Inr data1 \<Rightarrow>
                    (case wr data1 (nat (i + j + len div 2)) (u - v) of
                       Inl f \<Rightarrow> Inl f
                     | Inr data2 \<Rightarrow> butterflies m i (j + 1) len (w * wlen) wlen data2))))"

text \<open>The loop \<open>for (i = 0; i < n; i += len)\<close> over the blocks of one stage.\<close>

partial_function (option) blocks :: "int \<Rightarrow> int \<Rightarrow> int \<Rightarrow> complex \<Rightarrow> complex list
    \<Rightarrow> (fault + complex list) option" where
  "blocks i n len wlen data =
     (if i < n
      then (case butterflies (nat (len div 2)) i 0 len 1 wlen data of
              Inl f \<Rightarrow> Some (Inl f)
            | Inr data' \<Rightarrow> blocks (i + len) n len wlen data')
      else Some (Inr data))"

text \<open>The loop \<open>for (len = 2; len <= n; len *= 2)\<close> over the stages.\<close>

partial_function (option) stages :: "int \<Rightarrow> int \<Rightarrow> complex list \<Rightarrow> (fault + complex list) option" where
  "stages len n data =
     (if len \<le> n
      then (let angle = - 2 * M_PI / real_of_int len;
                wlen = Complex (cos angle) (sin angle)
            in case blocks 0 n len wlen data of
                 None \<Rightarrow> None
               | Some (Inl f) \<Rightarrow> Some (Inl f)
               | Some (Inr data') \<Rightarrow> stages (len * 2) n data')
      else Some (Inr data))"

definition fft :: "complex list \<Rightarrow> int \<Rightarrow> (fault + complex list) option" where
  "fft data n =
     (case bit_reverse (nat (n - 1)) 0 0 n data of
        None \<Rightarrow> None
      | Some (Inl f) \<Rightarrow> Some (Inl f)
      | Some (Inr data') \<Rightarrow> stages 2 n data')"

subsection \<open>\<open>MelFilterbank::apply\<close>\<close>

definition mel_energy :: "real list \<Rightarrow> real list \<Rightarrow> nat \<Rightarrow> real" where
  "mel_energy filters power_spectrum i =
     (let e = (\<Sum>j\<leftarrow>[0..<N_FFT_BINS].
                 if i * N_FFT_BINS + j < MAX_FILTER_BANKS
                 then power_spectrum ! j * filters ! (i * N_FFT_BINS + j) else 0);
          e' = (if e < 1 / 10 ^ 10 then 1 / 10 ^ 10 else e)
      in 10 * log 10 e')"

definition mel_apply :: "real list \<Rightarrow> nat \<Rightarrow> real list \<Rightarrow> real list" where
  "mel_apply filters n_mels power_spectrum = map (mel_energy filters power_spectrum) [0..<n_mels]"

subsection \<open>\<open>extract_mel_spectrogram\<close>\<close>

text \<open>The copy into \<open>fft_buffer\<close> with zero padding past \<open>num_samples\<close>.\<close>

fun load_frame :: "int16_t list \<Rightarrow> size_t \<Rightarrow> size_t \<Rightarrow> nat \<Rightarrow> nat \<Rightarrow> fault + complex list" where
  "load_frame audio num_samples start_idx i 0 = Inr []"
| "load_frame audio num_samples start_idx i (Suc k) =
     (let idx = start_idx + of_nat i in
      case (if idx < num_samples
            then (case rd audio (unat idx) of
                    Inl e \<Rightarrow> Inl e
                  | Inr x \<Rightarrow> Inr (Complex (real_of_int (sint x) / 32768) 0))
            else Inr (Complex 0 0)) of
        Inl e \<Rightarrow> Inl e
      | Inr c \<Rightarrow>
          (case load_frame audio num_samples start_idx (i + 1) k of
             Inl e \<Rightarrow> Inl e
           | Inr cs \<Rightarrow> Inr (c # cs)))"

definition hamming :: "nat \<Rightarrow> real" where
  "hamming i = 54 / 100 - 46 / 100 * cos (2 * M_PI * real i / real (FFT_SIZE - 1))"

definition apply_window :: "complex list \<Rightarrow> complex list" where
  "apply_window buf = map (\<lambda>(i, z). Complex (Re z * hamming i) (Im z)) (zip [0..<length buf] buf)"

definition power_of :: "complex list \<Rightarrow> real list" where
  "power_of buf = map (\<lambda>z. Re z * Re z + Im z * Im z) (take N_FFT_BINS buf)"

text \<open>The copy of \<open>mel_energies\<close> into row \<open>frame\<close> of the output.\<close>

fun store_row :: "real list \<Rightarrow> size_t \<Rightarrow> size_t \<Rightarrow> real list \<Rightarrow> nat \<Rightarrow> fault + real list" where
  "store_row out frame bands [] i = Inr out"
| "store_row out frame bands (e # es) i =
     (case wr out (unat (frame * bands + of_nat i)) e of
        Inl f \<Rightarrow> Inl f
      | Inr out' \<Rightarrow> store_row out' frame bands es (i + 1))"

text \<open>The loop over the time frames: \<open>k\<close> frames remain, starting at \<open>frame\<close>.\<close>

fun frames_loop :: "Impl \<Rightarrow> int16_t list \<Rightarrow> size_t \<Rightarrow> real list \<Rightarrow> size_t \<Rightarrow> nat
    \<Rightarrow> fault + real list" where
  "frames_loop d audio num_samples out frame 0 = Inr out"
| "frames_loop d audio num_samples out frame (Suc k) =
     (case load_frame audio num_samples (frame * of_nat HOP_LENGTH) 0 FFT_SIZE of
        Inl f \<Rightarrow> Inl f
      | Inr buf \<Rightarrow>
          (case fft (apply_window buf) (int FFT_SIZE) of
             None \<Rightarrow> Inl NonTermination
           | Some (Inl f) \<Rightarrow> Inl f
           | Some (Inr spectrum) \<Rightarrow>
               (let energies = mel_apply (mel_filters d) (unat (mel_bands d)) (power_of spectrum)
                in case store_row out frame (mel_bands d) energies 0 of
                     Inl f \<Rightarrow> Inl f
                   | Inr out' \<Rightarrow> frames_loop d audio num_samples out' (frame + 1) k)))"

definition required_samples :: "Impl \<Rightarrow> size_t" where
  "required_samples d = (time_frames d - 1) * of_nat HOP_LENGTH + of_nat FFT_SIZE"

text \<open>
  \<open>extract_mel_spectrogram(audio_samples, num_samples, output_features)\<close>: the returned
  flag and the contents of \<open>output_features\<close> after the call.
\<close>

definition extract_mel_spectrogram ::
  "Impl \<Rightarrow> int16_t list \<Rightarrow> size_t \<Rightarrow> real list \<Rightarrow> fault + (bool \<times> real list)" where
  "extract_mel_spectrogram d audio_samples num_samples output_features =
     (if \<not> initialized d then Inr (False, output_features)
      else if num_samples < required_samples d then Inr (False, output_features)
      else (case frames_loop d audio_samples num_samples output_features 0 (unat (time_frames d)) of
              Inl f \<Rightarrow> Inl f
            | Inr out \<Rightarrow> Inr (True, out)))"

text \<open>\<open>BarkDetector::extract_features\<close>.\<close>

definition extract_features ::
  "Impl \<Rightarrow> int16_t list \<Rightarrow> size_t \<Rightarrow> real list \<Rightarrow> size_t \<Rightarrow> fault + (bool \<times> real list)" where
  "extract_features d audio_samples num_samples features feature_size =
     (if feature_size \<noteq> input_size d then Inr (False, features)
      else extract_mel_spectrogram d audio_samples num_samples features)"

subsection \<open>\<open>apply_temporal_filter\<close>\<close>

text \<open>
  The exponential moving average loop, \<open>k\<close> classes remaining from class \<open>i\<close>;
  \<open>ema_confidence\<close> is an array of 4 floats.
\<close>

fun ema_loop :: "real \<Rightarrow> nat \<Rightarrow> nat \<Rightarrow> real list \<Rightarrow> real list \<Rightarrow> fault + (real list \<times> real list)" where
  "ema_loop alpha i 0 ema confidences = Inr (ema, confidences)"
| "ema_loop alpha i (Suc k) ema confidences =
     (case rd confidences i of
        Inl f \<Rightarrow> Inl f
      | Inr c \<Rightarrow>
          (case rd ema i of
             Inl f \<Rightarrow> Inl f
           | Inr e \<Rightarrow>
               (let v = alpha * c + (1 - alpha) * e
                in ema_loop alpha (i + 1) k (ema[i := v]) (confidences[i := v]))))"

text \<open>Storing the current confidences in row \<open>idx\<close> of the circular history.\<close>

fun store_history :: "real option list \<Rightarrow> nat \<Rightarrow> nat \<Rightarrow> real list \<Rightarrow> nat \<Rightarrow> nat
    \<Rightarrow> fault + real option list" where
  "store_history mb idx num_classes confidences i 0 = Inr mb"
| "store_history mb idx num_classes confidences i (Suc k) =
     (case rd confidences i of
        Inl f \<Rightarrow> Inl f
      | Inr c \<Rightarrow>
          (case wr mb (idx * num_classes + i) (Some c) of
             Inl f \<Rightarrow> Inl f
           | Inr mb' \<Rightarrow> store_history mb' idx num_classes confidences (i + 1) k))"

text \<open>
  The copy of the first \<open>count\<close> history entries of class \<open>i\<close> into the local array
  \<open>values\<close>, \<open>k\<close> entries remaining from entry \<open>j\<close>.
\<close>

fun copy_history :: "real option list \<Rightarrow> nat \<Rightarrow> nat \<Rightarrow> nat \<Rightarrow> nat \<Rightarrow> real option list
    \<Rightarrow> fault + real option list" where
  "copy_history mb num_classes i j 0 vals = Inr vals"
| "copy_history mb num_classes i j (Suc k) vals =
     (case rd_init mb (j * num_classes + i) of
        Inl f \<Rightarrow> Inl f
      | Inr v \<Rightarrow>
          (case wr vals j (Some v) of
             Inl f \<Rightarrow> Inl f
           | Inr vals' \<Rightarrow> copy_history mb num_classes i (j + 1) k vals'))"

text \<open>\<open>std::sort(values, values + count)\<close> on the local array.\<close>

definition sort_prefix :: "real option list \<Rightarrow> nat \<Rightarrow> real option list" where
  "sort_prefix vals cnt = map Some (sort (map the (take cnt vals))) @ drop cnt vals"

text \<open>
  The number of history entries used, \<open>std::min((size_t)median_filter_size, total_inferences)\<close>.
\<close>

definition median_count :: "Impl \<Rightarrow> nat" where
  "median_count d = min (unat (median_filter_size (config d))) (unat (total_inferences (stats d)))"

text \<open>
  The median of class \<open>i\<close>: a fresh, unwritten \<open>values[MAX_MEDIAN_FILTER_SIZE]\<close>, the
  copy, the sort and the read of \<open>values[count / 2]\<close>.
\<close>

definition class_median :: "Impl \<Rightarrow> real option list \<Rightarrow> nat \<Rightarrow> nat \<Rightarrow> fault + real" where
  "class_median d mb num_classes i =
     (let cnt = median_count d in
      case copy_history mb num_classes i 0 cnt (replicate MAX_MEDIAN_FILTER_SIZE None) of
        Inl f \<Rightarrow> Inl f
      | Inr vals \<Rightarrow> rd_init (sort_prefix vals cnt) (cnt div 2))"

fun median_loop :: "Impl \<Rightarrow> real option list \<Rightarrow> nat \<Rightarrow> nat \<Rightarrow> nat \<Rightarrow> real list \<Rightarrow> fault + real list" where
  "median_loop d mb num_classes i 0 confidences = Inr confidences"
| "median_loop d mb num_classes i (Suc k) confidences =
     (case class_median d mb num_classes i of
        Inl f \<Rightarrow> Inl f
      | Inr m \<Rightarrow>
          (case wr confidences i m of
             Inl f \<Rightarrow> Inl f
           | Inr confidences' \<Rightarrow> median_loop d mb num_classes (i + 1) k confidences'))"

text \<open>
  \<open>apply_temporal_filter(confidences, num_classes)\<close>: the confidences after the call and
  the new detector state.
\<close>

definition apply_temporal_filter :: "Impl \<Rightarrow> real list \<Rightarrow> nat \<Rightarrow> fault + (real list \<times> Impl)" where
  "apply_temporal_filter d confidences num_classes =
     (if \<not> enable_temporal_filter (config d) then Inr (confidences, d)
      else
        case ema_loop (ema_alpha (config d)) 0 num_classes (ema_confidence d) confidences of
          Inl f \<Rightarrow> Inl f
        | Inr (ema, conf1) \<Rightarrow>
            (let d1 = d\<lparr>ema_confidence := ema\<rparr> in
             if median_filter_size (config d) > 1
             then
               case store_history (median_buffer d1) (median_buffer_idx d1) num_classes conf1 0 num_classes of
                 Inl f \<Rightarrow> Inl f
               | Inr mb \<Rightarrow>
                   (let d2 = d1\<lparr>median_buffer := mb,
                                median_buffer_idx :=
                                  (median_buffer_idx d1 + 1) mod unat (median_filter_size (config d))\<rparr>
                    in case median_loop d2 mb num_classes 0 num_classes conf1 of
                         Inl f \<Rightarrow> Inl f
                       | Inr conf2 \<Rightarrow> Inr (conf2, d2))
             else Inr (conf1, d1)))"

subsection \<open>\<open>run_inference\<close> and \<open>BarkDetector::process\<close>\<close>

text \<open>The search for the class of highest confidence, \<open>k\<close> classes remaining from class \<open>i\<close>.\<close>

fun argmax_loop :: "real list \<Rightarrow> nat \<Rightarrow> nat \<Rightarrow> real \<Rightarrow> 8 word \<Rightarrow> fault + (real \<times> 8 word)" where
  "argmax_loop output i 0 max_confidence max_class = Inr (max_confidence, max_class)"
| "argmax_loop output i (Suc k) max_confidence max_class =
     (case rd output i of
        Inl f \<Rightarrow> Inl f
      | Inr c \<Rightarrow>
          (if c > max_confidence then argmax_loop output (i + 1) k c (of_nat i)
           else argmax_loop output (i + 1) k max_confidence max_class))"

definition run_inference :: "env \<Rightarrow> Impl \<Rightarrow> int16_t list \<Rightarrow> size_t \<Rightarrow> fault + (DetectionResult \<times> Impl)" where
  "run_inference e d audio_samples num_samples =
     (let result = \<lparr>detected_class = UNKNOWN, confidence = 0, timestamp_ms = Some 0, is_bark = False\<rparr> in
      if \<not> initialized d then Inr (result, d)
      else if \<not> alloc_ok e then Inr (result, d)
      else if length audio_samples < unat num_samples then Inl OutOfBounds
      else
        let mutable_samples = apply_agc (take (unat num_samples) audio_samples)
                                (agc_target_level (config d)) in
        if \<not> apply_noise_gate mutable_samples (BarkDetectorConfig.noise_gate_threshold (config d))
        then Inr (result\<lparr>detected_class := SILENCE, confidence := 1\<rparr>, d)
        else
          case extract_mel_spectrogram d mutable_samples num_samples (input_tensor d) of
            Inl f \<Rightarrow> Inl f
          | Inr (ok, features) \<Rightarrow>
              (let d1 = d\<lparr>input_tensor := features\<rparr> in
               if \<not> ok then Inr (result, d1)
               else
                 let d2 = d1\<lparr>stats := (stats d1)\<lparr>preprocessing_time_us :=
                                 micros_preproc_end e - micros_preproc_start e\<rparr>\<rparr>;
                     (invoke_ok, output0) = Invoke e (input_tensor d2) (output_tensor d2);
                     d3 = d2\<lparr>output_tensor := output0\<rparr>
                 in
                 if \<not> invoke_ok then Inr (result, d3)
                 else
                   let num_classes = unat (output_dim d3) in
                   case apply_temporal_filter d3 output0 num_classes of
                     Inl f \<Rightarrow> Inl f
                   | Inr (output, d4) \<Rightarrow>
                       (case rd output 0 of
                          Inl f \<Rightarrow> Inl f
                        | Inr c0 \<Rightarrow>
                            (case argmax_loop output 1 (num_classes - 1) c0 0 of
                               Inl f \<Rightarrow> Inl f
                             | Inr (max_confidence, max_class) \<Rightarrow>
                                 (let bark = (max_class = DOG_BARK \<and>
                                              max_confidence \<ge> confidence_threshold (config d4));
                                      result' = result\<lparr>detected_class := max_class,
                                                  confidence := max_confidence, is_bark := bark\<rparr>;
                                      inference_time = micros_end e - micros_start e;
                                      total = total_inferences (stats d4) + 1;
                                      acc = inference_time_accumulator d4 + inference_time
                                  in if total = 0 then Inl DivisionByZero
                                     else
                                       let st = (stats d4)\<lparr>inference_time_us := inference_time,
                                                   total_inferences := total,
                                                   avg_inference_time_us := acc div total\<rparr>;
                                           st' = (if bark then st\<lparr>bark_detections := bark_detections st + 1\<rparr>
                                                  else st);
                                           st'' = st'\<lparr>memory_usage_kb :=
                                                    real (unat (tensor_arena_size d4)) / 1024\<rparr>
                                       in Inr (result', d4\<lparr>output_tensor := output, stats := st'',
                                                 inference_time_accumulator := acc\<rparr>))))))"

text \<open>
  \<open>BarkDetector::process(audio_samples, num_samples, sample_rate)\<close>. The error result is
  declared without initialiser, so its \<open>timestamp_ms\<close> is never assigned.
\<close>

definition process ::
  "env \<Rightarrow> Impl \<Rightarrow> int16_t list \<Rightarrow> size_t \<Rightarrow> uint32_t \<Rightarrow> fault + (DetectionResult \<times> Impl)" where
  "process e d audio_samples num_samples sample_rate =
     (if sample_rate \<noteq> SAMPLE_RATE
      then Inr (\<lparr>detected_class = UNKNOWN, confidence = 0, timestamp_ms = None, is_bark = False\<rparr>, d)
      else
        case run_inference e d audio_samples num_samples of
          Inl f \<Rightarrow> Inl f
        | Inr (result, d') \<Rightarrow> Inr (result\<lparr>timestamp_ms := Some (millis_now e)\<rparr>, d'))"

text \<open>
  The state built by the constructor of \<open>Impl\<close> (default configuration, zeroed averages and
  statistics) once \<open>init_model\<close> has succeeded on a model with a 2 by 2 input and four
  output classes: tensors zeroed, a fresh history of \<open>median_filter_size * 4\<close> cells.
\<close>

definition default_config :: BarkDetectorConfig where
  "default_config = \<lparr>confidence_threshold = 7 / 10, min_bark_duration_ms = 300,
     agc_target_level = 1 / 2, noise_gate_threshold = - 40, enable_temporal_filter = True,
     ema_alpha = 3 / 10, median_filter_size = 3\<rparr>"

definition fresh_stats :: PerformanceStats where
  "fresh_stats = \<lparr>inference_time_us = 0, avg_inference_time_us = 0, preprocessing_time_us = 0,
     total_inferences = 0, bark_detections = 0, memory_usage_kb = 0\<rparr>"

definition fresh_impl :: Impl where
  "fresh_impl = \<lparr>input_tensor = [0, 0, 0, 0], output_tensor = [0, 0, 0, 0], output_dim = 4,
     tensor_arena_size = 32768, mel_filters = [], config = default_config, initialized = True,
     input_size = 4, mel_bands = 2, time_frames = 2, ema_confidence = [0, 0, 0, 0],
     median_buffer = replicate 12 None, median_buffer_idx = 0, stats = fresh_stats,
     inference_time_accumulator = 0\<rparr>"

text \<open>An environment in which the allocation succeeds and the interpreter answers a fixed vector.\<close>

definition test_env :: env where
  "test_env = \<lparr>Invoke = (\<lambda>inp outp. (True, [9 / 10, 1 / 20, 1 / 20, 0])),
     alloc_ok = True, micros_start = 100, micros_preproc_start = 101, micros_preproc_end = 150,
     micros_end = 200, millis_now = 5\<rparr>"

text \<open>
  A detector with a median window of 5 after nine completed inferences: the history rows
  0 to 3 hold 0.1, 0.9, 0.2 and 0.8 for class 0, and row 4 is the next to be written.
\<close>

definition history_impl :: Impl where
  "history_impl = fresh_impl\<lparr>
     config := default_config\<lparr>ema_alpha := 1, median_filter_size := 5\<rparr>,
     ema_confidence := [4 / 5, 0, 0, 0],
     median_buffer := [Some (1 / 10), Some 0, Some 0, Some 0,
                       Some (9 / 10), Some 0, Some 0, Some 0,
                       Some (1 / 5), Some 0, Some 0, Some 0,
                       Some (4 / 5), Some 0, Some 0, Some 0,
                       Some (1 / 2), Some 0, Some 0, Some 0],
     median_buffer_idx := 4,
     stats := fresh_stats\<lparr>total_inferences := 9\<rparr>\<rparr>"

text \<open>The state \<open>history_impl\<close> after one more call of the temporal filter on 0.3 for class 0.\<close>

definition history_impl_next :: Impl where
  "history_impl_next = history_impl\<lparr>
     ema_confidence := [3 / 10, 0, 0, 0],
     median_buffer := [Some (1 / 10), Some 0, Some 0, Some 0,
                       Some (9 / 10), Some 0, Some 0, Some 0,
                       Some (1 / 5), Some 0, Some 0, Some 0,
                       Some (4 / 5), Some 0, Some 0, Some 0,
                       Some (3 / 10), Some 0, Some 0, Some 0],
     median_buffer_idx := 0\<rparr>"

section \<open>The decision state machine\<close>

text \<open>
  Modelled from the spec: the state machine of the temporal decision stage (idle, candidate,
  confirmed with minimum duration and debounce) is declared by \<open>Config::min_duration_ms\<close>
  and \<open>Config::debounce_ms\<close> in bark\_detector\_api.h, but no source file implements it. The
  definitions below follow section 4.5 of the specification: times are millisecond
  timestamps delivered in order; a candidate is confirmed on a cycle whose confidence is
  at or above the threshold once the time since it started reaches the minimum duration,
  which emits the one event; a candidate or confirmed state returns to idle on a cycle
  below the threshold once the time since the last cycle at or above the threshold exceeds
  the debounce interval.
\<close>

record decision_config =
  bark_threshold :: real
  min_duration_ms :: nat
  debounce_ms :: nat

datatype decision_state = Idle | CandidateActive nat nat | Confirmed nat nat

record BarkEvent =
  event_confidence :: real
  event_start_time :: nat
  event_duration_ms :: nat

fun decide :: "decision_config \<Rightarrow> decision_state \<Rightarrow> nat \<times> real \<Rightarrow> decision_state \<times> BarkEvent option" where
  "decide c Idle (t, conf) =
     (if conf \<ge> bark_threshold c then (CandidateActive t t, None) else (Idle, None))"
| "decide c (CandidateActive start last_t) (t, conf) =
     (if conf \<ge> bark_threshold c
      then (if t - start \<ge> min_duration_ms c
            then (Confirmed start t,
                  Some \<lparr>event_confidence = conf, event_start_time = start, event_duration_ms = t - start\<rparr>)
            else (CandidateActive start t, None))
      else (if t - last_t > debounce_ms c then (Idle, None) else (CandidateActive start last_t, None)))"
| "decide c (Confirmed start last_t) (t, conf) =
     (if conf \<ge> bark_threshold c then (Confirmed start t, None)
      else (if t - last_t > debounce_ms c then (Idle, None) else (Confirmed start last_t, None)))"

text \<open>The events emitted over a sequence of classification cycles, and the state reached.\<close>

fun decide_all :: "decision_config \<Rightarrow> decision_state \<Rightarrow> (nat \<times> real) list
    \<Rightarrow> BarkEvent list \<times> decision_state" where
  "decide_all c st [] = ([], st)"
| "decide_all c st (x # xs) =
     (let (st', ev) = decide c st x;
          (evs, st'') = decide_all c st' xs
      in ((case ev of None \<Rightarrow> evs | Some b \<Rightarrow> b # evs), st''))"

text \<open>
  The defaults of \<open>Config\<close> in bark\_detector\_api.h (threshold 0.8, minimum duration
  300 ms, debounce 100 ms) and a trace of cycles every 100 ms: a burst of 400 ms, 80 ms of
  quiet, a second burst, and silence.
\<close>

definition decision_defaults :: decision_config where
  "decision_defaults = \<lparr>bark_threshold = 4 / 5, min_duration_ms = 300, debounce_ms = 100\<rparr>"

definition first_burst :: "(nat \<times> real) list" where
  "first_burst = [(0, 9 / 10), (100, 9 / 10), (200, 9 / 10), (300, 9 / 10), (400, 9 / 10)]"

definition short_gap :: "(nat \<times> real) list" where
  "short_gap = [(450, 1 / 10)]"

definition second_burst :: "(nat \<times> real) list" where
  "second_burst = [(480, 9 / 10), (600, 9 / 10), (800, 9 / 10)]"

definition silence :: "(nat \<times> real) list" where
  "silence = [(900, 1 / 10), (1100, 1 / 10)]"

section \<open>Properties of the ring buffer\<close>

lemma read_loop_peek_loop:
  "fst (read_loop s k out) = peek_loop s (ringBufferReadPos s) k out"
proof (induction k arbitrary: s out)
  case 0
  show ?case by simp
next
  case (Suc k)
  have "peek_loop (s\<lparr>ringBufferReadPos := p\<rparr>) q k out' = peek_loop s q k out'" for p q out'
    by (induction k arbitrary: q out') simp_all
  with Suc show ?case by simp
qed

lemma size_pos: "0 < AUDIO_BUFFER_SIZE"
  by (simp add: AUDIO_BUFFER_SIZE_def SAMPLES_PER_FRAME_def AUDIO_BUFFER_FRAMES_def)

lemma mod_size_cases:
  "x < 2 * AUDIO_BUFFER_SIZE \<Longrightarrow>
   x mod AUDIO_BUFFER_SIZE = (if x < AUDIO_BUFFER_SIZE then x else x - AUDIO_BUFFER_SIZE)"
  by (simp add: mod_if)

lemma length_ring_contents: "length (ring_contents s) = getAvailableSamples s"
  by (simp add: ring_contents_def)

text \<open>One iteration of the read loop removes the head of the contents.\<close>

lemma contents_read_step:
  assumes ok: "ring_ok s" and ne: "ringBufferReadPos s \<noteq> ringBufferWritePos s"
  shows "ring_contents s = audioRingBuffer s (ringBufferReadPos s) #
           ring_contents (s\<lparr>ringBufferReadPos := Suc (ringBufferReadPos s) mod AUDIO_BUFFER_SIZE\<rparr>)"
proof -
  let ?N = AUDIO_BUFFER_SIZE
  let ?s' = "s\<lparr>ringBufferReadPos := Suc (ringBufferReadPos s) mod ?N\<rparr>"
  from ok have r: "ringBufferReadPos s < ?N" and w: "ringBufferWritePos s < ?N"
    by (simp_all add: ring_ok_def)
  have av: "getAvailableSamples s = Suc (getAvailableSamples ?s')"
    using r w ne by (auto simp: getAvailableSamples_def mod_size_cases)
  have idx: "(ringBufferReadPos ?s' + i) mod ?N = (ringBufferReadPos s + Suc i) mod ?N" for i
    by (simp add: mod_simps)
  have "ring_contents s =
        map (\<lambda>i. audioRingBuffer s ((ringBufferReadPos s + i) mod ?N)) (0 # map Suc [0..<getAvailableSamples ?s'])"
    unfolding ring_contents_def av by (simp only: upt_conv_Cons zero_less_Suc if_True map_Suc_upt)
  also have "\<dots> = audioRingBuffer s (ringBufferReadPos s) # ring_contents ?s'"
    using r by (simp add: ring_contents_def comp_def mod_simps)
  finally show ?thesis .
qed

lemma contents_write_step:
  assumes ok: "ring_ok s"
    and ne: "Suc (ringBufferWritePos s) mod AUDIO_BUFFER_SIZE \<noteq> ringBufferReadPos s"
  shows "ring_contents (s\<lparr>audioRingBuffer := (audioRingBuffer s)(ringBufferWritePos s := x),
                          ringBufferWritePos := Suc (ringBufferWritePos s) mod AUDIO_BUFFER_SIZE\<rparr>)
         = ring_contents s @ [x]"
proof -
  let ?N = AUDIO_BUFFER_SIZE
  let ?s' = "s\<lparr>audioRingBuffer := (audioRingBuffer s)(ringBufferWritePos s := x),
                ringBufferWritePos := Suc (ringBufferWritePos s) mod ?N\<rparr>"
  from ok have r: "ringBufferReadPos s < ?N" and w: "ringBufferWritePos s < ?N"
    by (simp_all add: ring_ok_def)
  have av: "getAvailableSamples ?s' = Suc (getAvailableSamples s)"
    using r w ne by (auto simp: getAvailableSamples_def mod_size_cases split: if_splits)
  have last: "(ringBufferReadPos s + getAvailableSamples s) mod ?N = ringBufferWritePos s"
    using r w by (auto simp: getAvailableSamples_def mod_size_cases)
  have other: "(ringBufferReadPos s + i) mod ?N \<noteq> ringBufferWritePos s"
    if "i < getAvailableSamples s" for i
    using r w that by (auto simp: getAvailableSamples_def mod_size_cases split: if_splits)
  show ?thesis
    unfolding ring_contents_def av using last other by simp
qed

lemma ok_read_step: "ring_ok s \<Longrightarrow>
   ring_ok (s\<lparr>ringBufferReadPos := Suc (ringBufferReadPos s) mod AUDIO_BUFFER_SIZE\<rparr>)"
  using size_pos by (simp add: ring_ok_def)

lemma ok_write_step: "ring_ok s \<Longrightarrow>
   ring_ok (s\<lparr>audioRingBuffer := b, ringBufferWritePos := Suc (ringBufferWritePos s) mod AUDIO_BUFFER_SIZE\<rparr>)"
  using size_pos by (simp add: ring_ok_def)

lemma empty_iff: "ring_ok s \<Longrightarrow> (ringBufferReadPos s = ringBufferWritePos s) = (ring_contents s = [])"
  by (auto simp: ring_contents_def getAvailableSamples_def ring_ok_def)

lemma read_loop_contents:
  "ring_ok s \<Longrightarrow>
   fst (read_loop s k out) = out @ take k (ring_contents s) \<and>
   ring_contents (snd (read_loop s k out)) = drop k (ring_contents s) \<and>
   ring_ok (snd (read_loop s k out))"
proof (induction k arbitrary: s out)
  case 0
  then show ?case by simp
next
  case (Suc k)
  show ?case
  proof (cases "ringBufferReadPos s = ringBufferWritePos s")
    case True
    with Suc.prems show ?thesis by (simp add: empty_iff)
  next
    case False
    let ?s' = "s\<lparr>ringBufferReadPos := Suc (ringBufferReadPos s) mod AUDIO_BUFFER_SIZE\<rparr>"
    note c = contents_read_step [OF Suc.prems False]
    note ih = Suc.IH [OF ok_read_step [OF Suc.prems], of "out @ [audioRingBuffer s (ringBufferReadPos s)]"]
    from False ih show ?thesis by (simp add: c)
  qed
qed

lemma full_iff:
  "ring_ok s \<Longrightarrow>
   (Suc (ringBufferWritePos s) mod AUDIO_BUFFER_SIZE = ringBufferReadPos s)
   = (getAvailableSamples s = AUDIO_BUFFER_SIZE - 1)"
  by (auto simp: getAvailableSamples_def ring_ok_def mod_size_cases split: if_splits)

lemma avail_le: "ring_ok s \<Longrightarrow> getAvailableSamples s \<le> AUDIO_BUFFER_SIZE - 1"
  by (auto simp: getAvailableSamples_def ring_ok_def)

lemma write_loop_contents:
  "ring_ok s \<Longrightarrow>
   fst (write_loop s xs w) = w + min (length xs) (AUDIO_BUFFER_SIZE - 1 - getAvailableSamples s) \<and>
   ring_contents (snd (write_loop s xs w))
     = ring_contents s @ take (AUDIO_BUFFER_SIZE - 1 - getAvailableSamples s) xs \<and>
   ring_ok (snd (write_loop s xs w))"
proof (induction xs arbitrary: s w)
  case Nil
  then show ?case by simp
next
  case (Cons x xs)
  let ?N = AUDIO_BUFFER_SIZE
  show ?case
  proof (cases "Suc (ringBufferWritePos s) mod ?N = ringBufferReadPos s")
    case True
    with full_iff [OF Cons.prems] have "getAvailableSamples s = ?N - 1" by blast
    with True Cons.prems show ?thesis by simp
  next
    case False
    let ?s' = "s\<lparr>audioRingBuffer := (audioRingBuffer s)(ringBufferWritePos s := x),
                  ringBufferWritePos := Suc (ringBufferWritePos s) mod ?N\<rparr>"
    note c = contents_write_step [OF Cons.prems False, of x]
    have ok': "ring_ok ?s'" by (rule ok_write_step [OF Cons.prems])
    have "length (ring_contents ?s') = Suc (length (ring_contents s))" by (simp add: c)
    then have av: "getAvailableSamples ?s' = Suc (getAvailableSamples s)"
      by (simp only: length_ring_contents)
    from False full_iff [OF Cons.prems] have "getAvailableSamples s \<noteq> ?N - 1" by blast
    with avail_le [OF Cons.prems] have lt: "getAvailableSamples s < ?N - 1" by simp
    then obtain m where m: "?N - Suc (getAvailableSamples s) = Suc m"
      by (cases "?N - Suc (getAvailableSamples s)") auto
    then have m': "?N - Suc (Suc (getAvailableSamples s)) = m" by simp
    note ih = Cons.IH [OF ok', of "w + 1"]
    from False ih show ?thesis
      by (simp add: Let_def c av m m')
  qed
qed

lemma read_loop_numeral [simp]:
  "read_loop s (numeral k) out =
     (if ringBufferReadPos s \<noteq> ringBufferWritePos s
      then read_loop (s\<lparr>ringBufferReadPos := (ringBufferReadPos s + 1) mod AUDIO_BUFFER_SIZE\<rparr>)
             (pred_numeral k) (out @ [audioRingBuffer s (ringBufferReadPos s)])
      else (out, s))"
  by (simp add: numeral_eq_Suc)

lemma peek_loop_numeral [simp]:
  "peek_loop s p (numeral k) out =
     (if p \<noteq> ringBufferWritePos s
      then peek_loop s ((p + 1) mod AUDIO_BUFFER_SIZE) (pred_numeral k) (out @ [audioRingBuffer s p])
      else out)"
  by (simp add: numeral_eq_Suc)

lemma drain_contents: "ring_ok s \<Longrightarrow> drain s = ring_contents s"
  using read_loop_contents [of s "getAvailableSamples s" "[]"]
  by (simp add: drain_def readFromRingBuffer_def length_ring_contents)

lemma step_ok: "ring_ok s \<Longrightarrow> ring_ok (step s a)"
proof (cases a)
  case (RingWrite l xs)
  assume "ring_ok s"
  with write_loop_contents [of s xs 0] RingWrite show ?thesis
    by (simp add: writeToRingBuffer_def)
next
  case (RingRead l n)
  assume "ring_ok s"
  with read_loop_contents [of s n "[]"] RingRead show ?thesis
    by (simp add: readFromRingBuffer_def)
next
  case (RingPeek l n)
  assume "ring_ok s"
  with RingPeek show ?thesis by (simp add: peekRingBuffer_def)
qed

lemma run_ok: "ring_ok s \<Longrightarrow> ring_ok (run s ops)"
  by (induction ops arbitrary: s) (simp_all add: step_ok)

lemma ring_init_ok: "ring_ok ring_init"
  using size_pos by (simp add: ring_ok_def ring_init_def)

lemma fifo_general:
  "ring_ok s \<Longrightarrow> within_capacity s ops \<Longrightarrow>
   ring_contents s @ written ops = delivered s ops @ ring_contents (run s ops)"
proof (induction ops arbitrary: s)
  case Nil
  then show ?case by simp
next
  case (Cons a ops)
  note ok' = step_ok [OF Cons.prems(1), of a]
  show ?case
  proof (cases a)
    case (RingWrite l xs)
    from Cons.prems(2) have "l \<and> getAvailableSamples s + length xs < AUDIO_BUFFER_SIZE \<and>
        within_capacity (step s (RingWrite l xs)) ops"
      unfolding RingWrite by (cases l) simp_all
    then have l: l and fit: "getAvailableSamples s + length xs < AUDIO_BUFFER_SIZE"
      and wc: "within_capacity (step s a) ops" unfolding RingWrite by blast+
    from fit have "take (AUDIO_BUFFER_SIZE - 1 - getAvailableSamples s) xs = xs" by simp
    with write_loop_contents [OF Cons.prems(1), of xs 0] l RingWrite
    have "ring_contents (step s a) = ring_contents s @ xs"
      by (simp add: writeToRingBuffer_def)
    with Cons.IH [OF ok' wc] RingWrite show ?thesis by simp
  next
    case (RingRead l n)
    with Cons.prems have wc: "within_capacity (step s a) ops" by simp
    have "ring_contents s = fst (readFromRingBuffer l s n) @ ring_contents (step s a)"
      using read_loop_contents [OF Cons.prems(1), of n "[]"] RingRead
      by (simp add: readFromRingBuffer_def)
    with Cons.IH [OF ok' wc] RingRead show ?thesis by simp
  next
    case (RingPeek l n)
    with Cons.prems have wc: "within_capacity (step s a) ops" by simp
    have "step s a = s" using RingPeek by (simp add: peekRingBuffer_def)
    with Cons.IH [OF ok' wc] RingPeek show ?thesis by simp
  qed
qed

lemma write_then_read:
  assumes ok: "ring_ok s" and fit: "getAvailableSamples s + length xs < AUDIO_BUFFER_SIZE"
  shows "fst (readFromRingBuffer True (snd (writeToRingBuffer True s xs))
              (getAvailableSamples s + length xs)) = drain s @ xs"
proof -
  let ?s' = "snd (writeToRingBuffer True s xs)"
  from fit have "take (AUDIO_BUFFER_SIZE - 1 - getAvailableSamples s) xs = xs" by simp
  with write_loop_contents [OF ok, of xs 0]
  have c: "ring_contents ?s' = ring_contents s @ xs" and ok': "ring_ok ?s'"
    by (simp_all add: writeToRingBuffer_def)
  have "length (ring_contents ?s') = getAvailableSamples s + length xs"
    by (simp add: c length_ring_contents)
  with read_loop_contents [OF ok', of "getAvailableSamples s + length xs" "[]"] c
  show ?thesis by (simp add: readFromRingBuffer_def drain_contents [OF ok])
qed

text \<open>
  Claim C1. From any ring whose cursors index the array, over every sequence of writes,
  reads and peeks that stays within capacity, the samples buffered at the start followed by
  all samples written equal the samples handed out by the reads followed by what is still
  buffered at the end: reads deliver the written samples in write order, none twice and
  none lost. In particular, writing \<open>xs\<close> into an empty ring and reading
  \<open>length xs\<close> samples returns \<open>xs\<close>.
\<close>

theorem ring_fifo_roundtrip:
  assumes "ring_ok s" and "within_capacity s ops"
  shows "drain s @ written ops = delivered s ops @ drain (run s ops) \<and>
         (getAvailableSamples s = 0 \<and> length xs < AUDIO_BUFFER_SIZE \<longrightarrow>
          fst (readFromRingBuffer True (snd (writeToRingBuffer True s xs)) (length xs)) = xs)"
proof
  from fifo_general [OF assms] show "drain s @ written ops = delivered s ops @ drain (run s ops)"
    by (simp add: drain_contents assms(1) run_ok)
next
  show "getAvailableSamples s = 0 \<and> length xs < AUDIO_BUFFER_SIZE \<longrightarrow>
        fst (readFromRingBuffer True (snd (writeToRingBuffer True s xs)) (length xs)) = xs"
  proof
    assume a: "getAvailableSamples s = 0 \<and> length xs < AUDIO_BUFFER_SIZE"
    then have "drain s = []" by (simp add: drain_def readFromRingBuffer_def)
    with write_then_read [OF assms(1), of xs] a show
      "fst (readFromRingBuffer True (snd (writeToRingBuffer True s xs)) (length xs)) = xs"
      by simp
  qed
qed

theorem ring_fifo_roundtrip_witness:
  "ring_ok ring_init \<and>
   within_capacity ring_init [RingWrite True [1, 2, 3], RingRead True 2, RingWrite True [4], RingRead True 5] \<and>
   getAvailableSamples ring_init = 0 \<and> length [7, 8 :: int16_t] < AUDIO_BUFFER_SIZE \<and>
   delivered ring_init [RingWrite True [1, 2, 3], RingRead True 2, RingWrite True [4], RingRead True 5]
     = [1, 2, 3, 4] \<and>
   drain ring_init @ written [RingWrite True [1, 2, 3], RingRead True 2, RingWrite True [4], RingRead True 5]
     = delivered ring_init [RingWrite True [1, 2, 3], RingRead True 2, RingWrite True [4], RingRead True 5]
       @ drain (run ring_init [RingWrite True [1, 2, 3], RingRead True 2, RingWrite True [4], RingRead True 5]) \<and>
   fst (readFromRingBuffer True (snd (writeToRingBuffer True ring_init [7, 8])) (length [7, 8 :: int16_t]))
     = [7, 8]"
proof -
  let ?ops = "[RingWrite True [1, 2, 3], RingRead True 2, RingWrite True [4], RingRead True 5]"
  have n: "AUDIO_BUFFER_SIZE = 19200"
    by (simp add: AUDIO_BUFFER_SIZE_def SAMPLES_PER_FRAME_def AUDIO_BUFFER_FRAMES_def)
  have ok: "ring_ok ring_init" by (simp add: ring_ok_def ring_init_def n)
  have wc: "within_capacity ring_init ?ops"
    by (simp add: ring_init_def n getAvailableSamples_def writeToRingBuffer_def
        readFromRingBuffer_def Let_def)
  have e: "getAvailableSamples ring_init = 0 \<and> length [7, 8 :: int16_t] < AUDIO_BUFFER_SIZE"
    by (simp add: getAvailableSamples_def ring_init_def n)
  have d: "delivered ring_init ?ops = [1, 2, 3, 4]"
    by (simp add: ring_init_def n getAvailableSamples_def writeToRingBuffer_def
        readFromRingBuffer_def Let_def)
  from ring_fifo_roundtrip [OF ok wc, of "[7, 8]"] ok wc e d show ?thesis by simp
qed

text \<open>
  Claim C7. \<open>peekRingBuffer\<close> returns the ring exactly as it was (both cursors and every
  slot), and a destructive read of the same length issued in that state returns the same
  samples as the peek.
\<close>

theorem peek_leaves_ring_unchanged:
  "snd (peekRingBuffer l s n) = s \<and>
   fst (readFromRingBuffer l s n) = fst (peekRingBuffer l s n)"
  by (simp add: peekRingBuffer_def readFromRingBuffer_def read_loop_peek_loop)

text \<open>
  Claim C8. After any sequence of writes, reads and peeks from the empty ring,
  \<open>getAvailableSamples\<close> is at most \<open>AUDIO_BUFFER_SIZE - 1\<close>, and a single write into
  the empty ring stores \<open>min (length xs) (AUDIO_BUFFER_SIZE - 1)\<close> samples, never more
  than \<open>AUDIO_BUFFER_SIZE - 1\<close>.
\<close>

theorem available_below_capacity:
  "getAvailableSamples (run ring_init ops) \<le> AUDIO_BUFFER_SIZE - 1 \<and>
   fst (writeToRingBuffer l ring_init xs) \<le> AUDIO_BUFFER_SIZE - 1 \<and>
   fst (writeToRingBuffer True ring_init xs) = min (length xs) (AUDIO_BUFFER_SIZE - 1)"
proof -
  have a: "getAvailableSamples ring_init = 0"
    by (simp add: getAvailableSamples_def ring_init_def)
  have "fst (writeToRingBuffer True ring_init xs) = min (length xs) (AUDIO_BUFFER_SIZE - 1)"
    using write_loop_contents [OF ring_init_ok, of xs 0] a by (simp add: writeToRingBuffer_def)
  moreover from this have "fst (writeToRingBuffer l ring_init xs) \<le> AUDIO_BUFFER_SIZE - 1"
    by (cases l) (simp_all add: writeToRingBuffer_def)
  moreover have "getAvailableSamples (run ring_init ops) \<le> AUDIO_BUFFER_SIZE - 1"
    by (rule avail_le [OF run_ok [OF ring_init_ok]])
  ultimately show ?thesis by blast
qed

lemma ring_size_value: "RING_BUFFER_SIZE = 32000"
  by (simp add: RING_BUFFER_SIZE_def)

lemma audio_size_value: "AUDIO_BUFFER_SIZE = 19200"
  by (simp add: AUDIO_BUFFER_SIZE_def SAMPLES_PER_FRAME_def AUDIO_BUFFER_FRAMES_def)

lemma write_full:
  "(ringBufferWritePos s + 1) mod AUDIO_BUFFER_SIZE = ringBufferReadPos s \<Longrightarrow>
   writeToRingBuffer l s xs = (0, s)"
  by (cases xs) (simp_all add: writeToRingBuffer_def)

text \<open>
  Claim C3 fails as stated. On the full ring of secure\_webrtc\_dogbark\_detector.cpp a write
  returns the state as it was, so nothing counts the overrun; on the full capture ring of
  webrtc-firmware.cpp, where \<open>bufferOverruns\<close> is incremented, the incoming sample
  replaces the oldest unread one (the slot at the read cursor changes from 1 to 5).
\<close>

theorem full_ring_write_counterexample:
  "(ringBufferWritePos ring_full + 1) mod AUDIO_BUFFER_SIZE = ringBufferReadPos ring_full \<and>
   writeToRingBuffer True ring_full [5] = (0, ring_full) \<and>
   ringAvailable capture_full = RING_BUFFER_SIZE \<and>
   bufferOverruns (ring_add capture_full 5) = bufferOverruns capture_full + 1 \<and>
   the (ringBuffer capture_full) (ringReadPos capture_full) = 1 \<and>
   the (ringBuffer (ring_add capture_full 5)) (ringReadPos capture_full) \<noteq>
     the (ringBuffer capture_full) (ringReadPos capture_full)"
  by (simp add: ring_full_def capture_full_def ring_add_def writeToRingBuffer_def
      audio_size_value ring_size_value Let_def)

text \<open>
  Claim C3 as amended. A call of \<open>writeToRingBuffer\<close> on a full ring stores nothing,
  returns 0 and leaves both cursors and every slot as they were. The sample loop of
  \<open>audioProcessTask\<close> on a full capture ring stores the incoming sample at the write
  cursor, advances both cursors by one slot and increments \<open>bufferOverruns\<close> by one.
\<close>

theorem full_ring_write:
  assumes full: "(ringBufferWritePos s + 1) mod AUDIO_BUFFER_SIZE = ringBufferReadPos s"
    and cfull: "ringAvailable c = RING_BUFFER_SIZE"
    and buf: "ringBuffer c = Some b"
  shows "writeToRingBuffer l s xs = (0, s) \<and>
         ring_add c x = c\<lparr>ringBuffer := Some (b(ringWritePos c := x)),
                            ringWritePos := (ringWritePos c + 1) mod RING_BUFFER_SIZE,
                            ringReadPos := (ringReadPos c + 1) mod RING_BUFFER_SIZE,
                            bufferOverruns := bufferOverruns c + 1\<rparr>"
  using write_full [OF full] cfull buf by (simp add: ring_add_def Let_def)

theorem full_ring_write_witness:
  "(ringBufferWritePos ring_full + 1) mod AUDIO_BUFFER_SIZE = ringBufferReadPos ring_full \<and>
   ringAvailable capture_full = RING_BUFFER_SIZE \<and>
   ringBuffer capture_full = Some (\<lambda>_. 1) \<and>
   writeToRingBuffer True ring_full [5, 6] = (0, ring_full) \<and>
   ring_add capture_full 5 = capture_full\<lparr>ringBuffer := Some ((\<lambda>_. 1)(ringWritePos capture_full := 5)),
                            ringWritePos := (ringWritePos capture_full + 1) mod RING_BUFFER_SIZE,
                            ringReadPos := (ringReadPos capture_full + 1) mod RING_BUFFER_SIZE,
                            bufferOverruns := bufferOverruns capture_full + 1\<rparr>"
proof -
  have f: "(ringBufferWritePos ring_full + 1) mod AUDIO_BUFFER_SIZE = ringBufferReadPos ring_full"
    by (simp add: ring_full_def audio_size_value)
  have c: "ringAvailable capture_full = RING_BUFFER_SIZE"
    by (simp add: capture_full_def ring_size_value)
  have b: "ringBuffer capture_full = Some (\<lambda>_. 1)"
    by (simp add: capture_full_def)
  from full_ring_write [OF f c b, of True "[5, 6]" 5] f c b show ?thesis by simp
qed

section \<open>Properties of the temporal filter\<close>

lemma rd_Inr: "rd xs i = Inr v \<longleftrightarrow> i < length xs \<and> xs ! i = v"
  by (auto simp: rd_def)

lemma wr_Inr: "wr xs i v = Inr ys \<longleftrightarrow> i < length xs \<and> ys = xs[i := v]"
  by (auto simp: wr_def)

lemma rd_init_Inr: "rd_init xs i = Inr v \<longleftrightarrow> i < length xs \<and> xs ! i = Some v"
  by (auto simp: rd_init_def rd_def split: option.splits)

lemma copy_history_length:
  "copy_history mb nc i j k vals = Inr vals' \<Longrightarrow> length vals' = length vals"
proof (induction k arbitrary: j vals)
  case 0
  then show ?case by simp
next
  case (Suc k)
  from Suc.prems obtain v vals1 where
    w: "wr vals j (Some v) = Inr vals1"
    and rest: "copy_history mb nc i (Suc j) k vals1 = Inr vals'"
    by (auto split: sum.splits)
  from w have "length vals1 = length vals" by (auto simp: wr_Inr)
  with Suc.IH [OF rest] show ?case by simp
qed

lemma copy_history_below:
  "copy_history mb nc i j k vals = Inr vals' \<Longrightarrow> n < j \<Longrightarrow> vals' ! n = vals ! n"
proof (induction k arbitrary: j vals)
  case 0
  then show ?case by simp
next
  case (Suc k)
  from Suc.prems(1) obtain v vals1 where
    w: "wr vals j (Some v) = Inr vals1"
    and rest: "copy_history mb nc i (Suc j) k vals1 = Inr vals'"
    by (auto split: sum.splits)
  from w have "vals1 = vals[j := Some v]" by (simp add: wr_Inr)
  with Suc.IH [OF rest, of ] Suc.prems(2) show ?case by simp
qed

lemma copy_history_nth:
  "copy_history mb nc i j k vals = Inr vals' \<Longrightarrow> j \<le> n \<Longrightarrow> n < j + k \<Longrightarrow>
   n < length vals \<and> vals' ! n = Some (the (mb ! (n * nc + i)))"
proof (induction k arbitrary: j vals)
  case 0
  then show ?case by simp
next
  case (Suc k)
  from Suc.prems(1) obtain v vals1 where
    r: "rd_init mb (j * nc + i) = Inr v" and w: "wr vals j (Some v) = Inr vals1"
    and rest: "copy_history mb nc i (Suc j) k vals1 = Inr vals'"
    by (auto split: sum.splits)
  from r have v: "mb ! (j * nc + i) = Some v" by (simp add: rd_init_Inr)
  from w have jl: "j < length vals" and v1: "vals1 = vals[j := Some v]" by (simp_all add: wr_Inr)
  show ?case
  proof (cases "n = j")
    case True
    from copy_history_below [OF rest, of j] have "vals' ! j = vals1 ! j" by simp
    with True jl v show ?thesis by (simp add: v1)
  next
    case False
    with Suc.prems have "Suc j \<le> n" "n < Suc j + k" by simp_all
    from Suc.IH [OF rest this] show ?thesis by (simp add: v1)
  qed
qed

lemma class_median_value:
  assumes cm: "class_median d mb nc i = Inr m" and pos: "0 < median_count d"
  shows "m = sort (map (\<lambda>n. the (mb ! (n * nc + i))) [0..<median_count d]) ! (median_count d div 2)"
proof -
  let ?c = "median_count d"
  let ?g = "\<lambda>n. the (mb ! (n * nc + i))"
  from cm obtain vals where
    c: "copy_history mb nc i 0 ?c (replicate MAX_MEDIAN_FILTER_SIZE None) = Inr vals"
    and r: "rd_init (sort_prefix vals ?c) (?c div 2) = Inr m"
    by (auto simp: class_median_def Let_def split: sum.splits)
  have len: "length vals = MAX_MEDIAN_FILTER_SIZE"
    using copy_history_length [OF c] by simp
  have nth: "n < length vals \<and> vals ! n = Some (?g n)" if "n < ?c" for n
    using copy_history_nth [OF c, of n] that by (simp add: len)
  from nth [of "?c - 1"] pos have le: "?c \<le> length vals" by arith
  have "map the (take ?c vals) = map ?g [0..<?c]"
    by (rule nth_equalityI) (simp_all add: le nth)
  then have sp: "sort_prefix vals ?c = map Some (sort (map ?g [0..<?c])) @ drop ?c vals"
    by (simp add: sort_prefix_def)
  from pos have h: "?c div 2 < ?c" by simp
  then have "sort_prefix vals ?c ! (?c div 2) = Some (sort (map ?g [0..<?c]) ! (?c div 2))"
    by (simp add: sp nth_append)
  with r show ?thesis by (simp add: rd_init_Inr)
qed

lemma median_loop_below:
  "median_loop d mb nc j k c = Inr c' \<Longrightarrow> i < j \<Longrightarrow> c' ! i = c ! i"
proof (induction k arbitrary: j c)
  case 0
  then show ?case by simp
next
  case (Suc k)
  from Suc.prems(1) obtain m c1 where
    w: "wr c j m = Inr c1" and rest: "median_loop d mb nc (Suc j) k c1 = Inr c'"
    by (auto split: sum.splits)
  from w have "c1 = c[j := m]" by (simp add: wr_Inr)
  with Suc.IH [OF rest] Suc.prems(2) show ?case by simp
qed

lemma median_loop_value:
  "median_loop d mb nc j k c = Inr c' \<Longrightarrow> j \<le> i \<Longrightarrow> i < j + k \<Longrightarrow>
   class_median d mb nc i = Inr (c' ! i)"
proof (induction k arbitrary: j c)
  case 0
  then show ?case by simp
next
  case (Suc k)
  from Suc.prems(1) obtain m c1 where
    cm: "class_median d mb nc j = Inr m"
    and w: "wr c j m = Inr c1" and rest: "median_loop d mb nc (Suc j) k c1 = Inr c'"
    by (auto split: sum.splits)
  show ?case
  proof (cases "i = j")
    case True
    from w have "c1 ! j = m" by (simp add: wr_Inr)
    with median_loop_below [OF rest, of j] have "c' ! j = m" by simp
    with cm True show ?thesis by simp
  next
    case False
    with Suc.prems have "Suc j \<le> i" "i < Suc j + k" by simp_all
    from Suc.IH [OF rest this] show ?thesis .
  qed
qed

lemma apply_temporal_filter_median:
  assumes run: "apply_temporal_filter d conf nc = Inr (conf', d')"
    and en: "enable_temporal_filter (config d)"
    and sz: "median_filter_size (config d) > 1"
    and i: "i < nc"
  shows "class_median d' (median_buffer d') nc i = Inr (conf' ! i) \<and>
         median_count d' = median_count d"
proof (cases "ema_loop (ema_alpha (config d)) 0 nc (ema_confidence d) conf")
  case (Inl f)
  with run en show ?thesis by (simp add: apply_temporal_filter_def)
next
  case (Inr p)
  obtain ema conf1 where p: "p = (ema, conf1)" by (cases p)
  let ?d1 = "d\<lparr>ema_confidence := ema\<rparr>"
  show ?thesis
  proof (cases "store_history (median_buffer d) (median_buffer_idx d) nc conf1 0 nc")
    case (Inl f)
    with run en sz Inr p show ?thesis by (simp add: apply_temporal_filter_def)
  next
    case mb: (Inr mb)
    let ?d2 = "d\<lparr>ema_confidence := ema, median_buffer := mb,
                 median_buffer_idx := (median_buffer_idx d + 1) mod unat (median_filter_size (config d))\<rparr>"
    show ?thesis
    proof (cases "median_loop ?d2 mb nc 0 nc conf1")
      case (Inl f)
      with run en sz Inr p mb show ?thesis by (simp add: apply_temporal_filter_def)
    next
      case ml: (Inr conf2)
      with run en sz Inr p mb have c: "conf' = conf2" and d': "d' = ?d2"
        by (simp_all add: apply_temporal_filter_def)
      from median_loop_value [OF ml, of i] i have "class_median ?d2 mb nc i = Inr (conf2 ! i)"
        by simp
      then show ?thesis by (simp add: c d' median_count_def)
    qed
  qed
qed

lemma sorted_five: "sort [1 / 10, 9 / 10, 1 / 5, 4 / 5, 3 / 10 :: real] = [1 / 10, 1 / 5, 3 / 10, 4 / 5, 9 / 10]"
  by simp

text \<open>
  Claim C4. With the temporal filter enabled, a median window of 5 and at least five
  inferences completed, if the five history entries of class \<open>i\<close> after this cycle's
  store are 0.1, 0.9, 0.2, 0.8 and 0.3 (in any order of slots), the filter leaves 0.3 as the
  confidence of class \<open>i\<close>.
\<close>

theorem median_of_five:
  assumes run: "apply_temporal_filter d conf nc = Inr (conf', d')"
    and en: "enable_temporal_filter (config d)"
    and sz: "median_filter_size (config d) = 5"
    and cycles: "5 \<le> unat (total_inferences (stats d))"
    and i: "i < nc"
    and hist: "mset (map (\<lambda>n. median_buffer d' ! (n * nc + i)) [0..<5])
               = mset (map Some [1 / 10, 9 / 10, 1 / 5, 4 / 5, 3 / 10])"
  shows "conf' ! i = 3 / 10"
proof -
  from sz have sz1: "median_filter_size (config d) > 1" by simp
  from sz cycles have c5: "median_count d = 5" by (simp add: median_count_def)
  from apply_temporal_filter_median [OF run en sz1 i] c5
  have cm: "class_median d' (median_buffer d') nc i = Inr (conf' ! i)" and c5': "median_count d' = 5"
    by simp_all
  define col where "col = map (\<lambda>n. the (median_buffer d' ! (n * nc + i))) [0..<5]"
  have pos: "0 < median_count d'" by (simp add: c5')
  have half: "(5::nat) div 2 = 2" by simp
  from class_median_value [OF cm pos] have v: "conf' ! i = sort col ! 2"
    by (simp only: c5' col_def half)
  have "mset col = image_mset the (mset (map (\<lambda>n. median_buffer d' ! (n * nc + i)) [0..<5]))"
    unfolding col_def by (simp only: mset_map [symmetric] map_map comp_def)
  also have "\<dots> = mset [1 / 10, 9 / 10, 1 / 5, 4 / 5, 3 / 10]"
    by (simp only: hist) simp
  finally have m: "mset col = mset [1 / 10, 9 / 10, 1 / 5, 4 / 5, 3 / 10 :: real]" .
  have "sort col = sort [1 / 10, 9 / 10, 1 / 5, 4 / 5, 3 / 10 :: real]"
    by (rule properties_for_sort) (simp_all only: m mset_sort sorted_sort)
  then have "sort col = [1 / 10, 1 / 5, 3 / 10, 4 / 5, 9 / 10]" by (simp only: sorted_five)
  with v show ?thesis by simp
qed

theorem median_of_five_witness:
  "apply_temporal_filter history_impl [3 / 10, 0, 0, 0] 4 = Inr ([3 / 10, 0, 0, 0], history_impl_next) \<and>
   enable_temporal_filter (config history_impl) \<and>
   median_filter_size (config history_impl) = 5 \<and>
   5 \<le> unat (total_inferences (stats history_impl)) \<and>
   (0::nat) < 4 \<and>
   mset (map (\<lambda>n. median_buffer history_impl_next ! (n * 4 + 0)) [0..<5])
     = mset (map Some [1 / 10, 9 / 10, 1 / 5, 4 / 5, 3 / 10]) \<and>
   [3 / 10, 0, 0, 0 :: real] ! 0 = 3 / 10"
proof -
  have r: "apply_temporal_filter history_impl [3 / 10, 0, 0, 0] 4
           = Inr ([3 / 10, 0, 0, 0], history_impl_next)"
    by code_simp
  have e: "enable_temporal_filter (config history_impl)" by code_simp
  have z: "median_filter_size (config history_impl) = 5" by code_simp
  have c: "5 \<le> unat (total_inferences (stats history_impl))" by code_simp
  have i: "(0::nat) < 4" by simp
  have u: "[0..<5] = [0, 1, 2, 3, 4 :: nat]" by code_simp
  have h: "mset (map (\<lambda>n. median_buffer history_impl_next ! (n * 4 + 0)) [0..<5])
           = mset (map Some [1 / 10, 9 / 10, 1 / 5, 4 / 5, 3 / 10])"
    by (simp add: u history_impl_next_def)
  from median_of_five [OF r e z c i h] r e z c i h show ?thesis by simp
qed

text \<open>
  Claim C10 at the first classification cycle. In the state left by a successful
  initialisation no inference has completed, so \<open>count\<close> is 0: nothing is copied into
  \<open>values\<close> and the read of \<open>values[0]\<close> is a read of a cell that was never written.
\<close>

theorem first_cycle_median_unwritten:
  "median_count fresh_impl = 0 \<and>
   apply_temporal_filter fresh_impl [9 / 10, 1 / 20, 1 / 20, 0] 4 = Inl UninitializedRead"
  by code_simp

section \<open>Properties of the noise gate\<close>

text \<open>
  What the gate does hold to: a sample at or above the threshold is left alone and not
  counted, every sample below the threshold is counted once, and \<open>softKneeCompress\<close>
  returns a level at or below \<open>threshold - knee_width / 2\<close> as it is.
\<close>

lemma gate_sample_hit:
  "snd (gate_sample c x) = (\<bar>x\<bar> < PreprocessConfig.noise_gate_threshold c)"
  by (simp add: gate_sample_def Let_def)

lemma gate_sample_at_or_above_threshold:
  "\<bar>x\<bar> \<ge> PreprocessConfig.noise_gate_threshold c \<Longrightarrow> gate_sample c x = (x, False)"
  by (simp add: gate_sample_def Let_def)

lemma noiseGate_activations:
  "snd (noiseGate c xs acts)
     = acts + of_nat (length (filter (\<lambda>x. \<bar>x\<bar> < PreprocessConfig.noise_gate_threshold c) xs))"
proof (induction xs arbitrary: acts)
  case Nil
  show ?case by simp
next
  case (Cons x xs)
  obtain y hit where g: "gate_sample c x = (y, hit)" by (cases "gate_sample c x")
  with gate_sample_hit [of c x] have h: "hit = (\<bar>x\<bar> < PreprocessConfig.noise_gate_threshold c)"
    by simp
  obtain ys a where n: "noiseGate c xs (if hit then acts + 1 else acts) = (ys, a)"
    by (cases "noiseGate c xs (if hit then acts + 1 else acts)")
  from Cons [of "if hit then acts + 1 else acts"] n
  have "a = (if hit then acts + 1 else acts)
            + of_nat (length (filter (\<lambda>x. \<bar>x\<bar> < PreprocessConfig.noise_gate_threshold c) xs))"
    by simp
  with g n h show ?case by simp
qed

lemma softKnee_below_knee:
  "input \<le> threshold - knee_width / 2 \<Longrightarrow> softKneeCompress input threshold ratio knee_width = input"
  by (simp add: softKneeCompress_def)

text \<open>
  Claim C5 at a level below \<open>threshold - knee / 2\<close>. With threshold 0.2, ratio 10 and the
  knee width 0.1, the sample 0.1 has a level below 0.15; the gate counts an activation and
  returns the sample as it was, not compressed by the ratio. With the default threshold
  0.001 the sample 0.0005 lies in the knee and comes out larger than it went in.
\<close>

theorem gate_below_knee_unchanged:
  "\<bar>1 / 10 :: real\<bar> < PreprocessConfig.noise_gate_threshold gate_config - default_knee_width / 2 \<and>
   noiseGate gate_config [1 / 10] 0 = ([1 / 10], 1) \<and>
   \<bar>1 / 2000 :: real\<bar> < PreprocessConfig.noise_gate_threshold default_gate_config \<and>
   fst (gate_sample default_gate_config (1 / 2000)) > 1 / 2000"
  by code_simp

section \<open>Properties of feature extraction and \<open>process\<close>\<close>

text \<open>
  For up to 16777214 time frames the 32-bit computation of the required sample count does
  not wrap: its value is the integer \<open>(time_frames - 1) * HOP_LENGTH + FFT_SIZE\<close>.
\<close>

lemma required_samples_value:
  assumes le: "unat (time_frames d) \<le> 16777214"
  shows "int (unat (required_samples d)) = (int (unat (time_frames d)) - 1) * int HOP_LENGTH + int FFT_SIZE"
proof (cases "time_frames d = 0")
  case True
  then have "required_samples d = 256"
    by (simp add: required_samples_def HOP_LENGTH_def FFT_SIZE_def)
  with True show ?thesis by (simp add: HOP_LENGTH_def FFT_SIZE_def)
next
  case False
  let ?t = "time_frames d"
  from False have m: "unat (?t - 1) = unat ?t - 1" by (rule unat_minus_one)
  from False have pos: "0 < unat ?t" by (simp add: unat_gt_0)
  have "unat (?t - 1) * unat (256 :: size_t) < 2 ^ LENGTH(32)"
    using le m by simp
  then have p: "unat ((?t - 1) * 256) = unat (?t - 1) * 256"
    using unat_mult_lem [of "?t - 1" "256 :: size_t"] by simp
  have "unat ((?t - 1) * 256) + unat (512 :: size_t) < 2 ^ LENGTH(32)"
    using le m p by simp
  then have "unat ((?t - 1) * 256 + 512) = unat ((?t - 1) * 256) + 512"
    using unat_add_lem [of "(?t - 1) * 256" "512 :: size_t"] by simp
  with p m pos show ?thesis
    by (simp add: required_samples_def HOP_LENGTH_def FFT_SIZE_def of_nat_diff)
qed

text \<open>
  Claim C6. A call of \<open>extract_mel_spectrogram\<close> (or of \<open>extract_features\<close>) with
  \<open>num_samples\<close> below \<open>(time_frames - 1) * HOP_LENGTH + FFT_SIZE\<close>, computed as the
  code computes it, returns \<open>false\<close> and leaves every element of the output buffer as it
  was.
\<close>

theorem insufficient_samples_no_write:
  assumes "num_samples < required_samples d"
  shows "extract_mel_spectrogram d audio_samples num_samples output_features
           = Inr (False, output_features) \<and>
         extract_features d audio_samples num_samples output_features feature_size
           = Inr (False, output_features)"
  using assms by (simp add: extract_mel_spectrogram_def extract_features_def)

theorem insufficient_samples_no_write_witness:
  "(100 :: size_t) < required_samples fresh_impl \<and>
   extract_mel_spectrogram fresh_impl (replicate 100 5) 100 [1, 2, 3, 4]
     = Inr (False, [1, 2, 3, 4]) \<and>
   extract_features fresh_impl (replicate 100 5) 100 [1, 2, 3, 4] 4
     = Inr (False, [1, 2, 3, 4])"
proof -
  have h: "(100 :: size_t) < required_samples fresh_impl"
    by (simp add: required_samples_def fresh_impl_def HOP_LENGTH_def FFT_SIZE_def)
  from insufficient_samples_no_write [OF h] h show ?thesis by simp
qed

text \<open>
  Claim C9. A call of \<open>process\<close> with a sample rate other than 16000 returns the class
  \<open>UNKNOWN\<close>, confidence 0 and \<open>is_bark = false\<close>, and the whole detector state
  (tensors, averages, history, statistics) is as before the call.
\<close>

theorem process_rejects_sample_rate:
  assumes "sample_rate \<noteq> SAMPLE_RATE"
  shows "process e d audio_samples num_samples sample_rate
           = Inr (\<lparr>detected_class = UNKNOWN, confidence = 0, timestamp_ms = None, is_bark = False\<rparr>, d)"
  using assms by (simp add: process_def)

theorem process_rejects_sample_rate_witness:
  "(8000 :: uint32_t) \<noteq> SAMPLE_RATE \<and>
   process test_env history_impl (replicate 1000 5) 1000 8000
     = Inr (\<lparr>detected_class = UNKNOWN, confidence = 0, timestamp_ms = None, is_bark = False\<rparr>,
            history_impl)"
proof -
  have h: "(8000 :: uint32_t) \<noteq> SAMPLE_RATE" by (simp add: SAMPLE_RATE_def)
  from process_rejects_sample_rate [OF h] h show ?thesis by simp
qed

section \<open>Properties of the decision state machine\<close>

lemma decide_all_append:
  "decide_all c st (xs @ ys) =
     (fst (decide_all c st xs) @ fst (decide_all c (snd (decide_all c st xs)) ys),
      snd (decide_all c (snd (decide_all c st xs)) ys))"
  by (induction xs arbitrary: st) (auto simp: Let_def split: prod.splits option.splits)

text \<open>Cycles at or above the threshold never leave the confirmed state and emit nothing.\<close>

lemma confirmed_loud:
  "\<forall>x\<in>set xs. snd x \<ge> bark_threshold c \<Longrightarrow>
   decide_all c (Confirmed s l) xs = ([], Confirmed s (if xs = [] then l else fst (last xs)))"
  by (induction xs arbitrary: l) (auto simp: Let_def)

text \<open>Cycles below the threshold within the debounce interval leave the confirmed state as it is.\<close>

lemma confirmed_short_gap:
  "\<forall>x\<in>set xs. snd x < bark_threshold c \<and> fst x - l \<le> debounce_ms c \<Longrightarrow>
   decide_all c (Confirmed s l) xs = ([], Confirmed s l)"
  by (induction xs) (auto simp: Let_def)

lemma idle_quiet:
  "\<forall>x\<in>set xs. snd x < bark_threshold c \<Longrightarrow> decide_all c Idle xs = ([], Idle)"
  by (induction xs) (auto simp: Let_def)

lemma confirmed_quiet:
  "\<forall>x\<in>set xs. snd x < bark_threshold c \<Longrightarrow> fst (decide_all c (Confirmed s l) xs) = []"
proof (induction xs)
  case Nil
  then show ?case by simp
next
  case (Cons x xs)
  obtain t v where x: "x = (t, v)" by (cases x)
  show ?case
  proof (cases "t - l > debounce_ms c")
    case True
    with Cons.prems x idle_quiet [of xs c] show ?thesis by (simp add: Let_def)
  next
    case False
    with Cons x show ?thesis by (simp add: Let_def)
  qed
qed

text \<open>
  A run of cycles at or above the threshold met in the candidate state: one event if some
  cycle lies the minimum duration after the start, and then the state is confirmed.
\<close>

lemma candidate_loud:
  "\<forall>x\<in>set xs. snd x \<ge> bark_threshold c \<Longrightarrow>
   \<exists>x\<in>set xs. fst x - s \<ge> min_duration_ms c \<Longrightarrow>
   length (fst (decide_all c (CandidateActive s l) xs)) = 1 \<and>
   snd (decide_all c (CandidateActive s l) xs) = Confirmed s (fst (last xs))"
proof (induction xs arbitrary: l)
  case Nil
  then show ?case by simp
next
  case (Cons x xs)
  obtain t v where x: "x = (t, v)" by (cases x)
  from Cons.prems(1) x have loud: "v \<ge> bark_threshold c" and rest: "\<forall>x\<in>set xs. snd x \<ge> bark_threshold c"
    by simp_all
  show ?case
  proof (cases "t - s \<ge> min_duration_ms c")
    case True
    with loud x confirmed_loud [OF rest, of s t] show ?thesis by (simp add: Let_def)
  next
    case False
    with Cons.prems(2) x have ex: "\<exists>x\<in>set xs. fst x - s \<ge> min_duration_ms c" by auto
    then have ne: "xs \<noteq> []" by auto
    from Cons.IH [OF rest ex, of t] False loud x ne show ?thesis by (simp add: Let_def)
  qed
qed

text \<open>
  Claim C2. A cycle met in the confirmed state never emits an event. Over a trace made of
  a qualifying burst (cycles at or above the threshold, one of them the minimum duration
  after the first), a gap below the threshold, a second burst that starts less than the
  debounce interval after the first one ended, and any silence after it, with timestamps
  in order, exactly one event is emitted.
\<close>

theorem one_event_for_close_bursts:
  assumes b1: "\<forall>x\<in>set burst1. snd x \<ge> bark_threshold c"
    and gp: "\<forall>x\<in>set gap. snd x < bark_threshold c"
    and b2: "\<forall>x\<in>set burst2. snd x \<ge> bark_threshold c"
    and qt: "\<forall>x\<in>set quiet. snd x < bark_threshold c"
    and ne1: "burst1 \<noteq> []" and ne2: "burst2 \<noteq> []"
    and qual: "\<exists>x\<in>set (tl burst1). fst x - fst (hd burst1) \<ge> min_duration_ms c"
    and ord: "sorted (map fst (burst1 @ gap @ burst2))"
    and sep: "fst (hd burst2) - fst (last burst1) < debounce_ms c"
  shows "length (fst (decide_all c Idle (burst1 @ gap @ burst2 @ quiet))) = 1 \<and>
         snd (decide c (Confirmed s l) x) = None"
proof
  obtain t0 v0 rest where bb: "burst1 = (t0, v0) # rest" using ne1 by (cases burst1) auto
  from qual bb have ex: "\<exists>x\<in>set rest. fst x - t0 \<ge> min_duration_ms c" by simp
  then have rne: "rest \<noteq> []" by auto
  from b1 bb have v0: "v0 \<ge> bark_threshold c" and br: "\<forall>x\<in>set rest. snd x \<ge> bark_threshold c"
    by simp_all
  let ?t1 = "fst (last burst1)"
  have t1: "?t1 = fst (last rest)" using bb rne by simp
  from candidate_loud [OF br ex, of t0] v0 bb t1
  have e1: "length (fst (decide_all c Idle burst1)) = 1"
    and s1: "snd (decide_all c Idle burst1) = Confirmed t0 ?t1"
    by (simp_all add: Let_def split: prod.splits)
  obtain t2 v2 rest2 where b2c: "burst2 = (t2, v2) # rest2" using ne2 by (cases burst2) auto
  have "\<forall>x\<in>set gap. fst x \<le> t2"
    using ord b2c by (auto simp: sorted_append)
  with sep b2c have "\<forall>x\<in>set gap. fst x - ?t1 \<le> debounce_ms c" by fastforce
  with gp have g: "decide_all c (Confirmed t0 ?t1) gap = ([], Confirmed t0 ?t1)"
    by (intro confirmed_short_gap) simp
  note l2 = confirmed_loud [OF b2, of t0 ?t1]
  let ?s2 = "Confirmed t0 (fst (last burst2))"
  from l2 ne2 have l2': "decide_all c (Confirmed t0 ?t1) burst2 = ([], ?s2)" by simp
  note q = confirmed_quiet [OF qt, of t0 "fst (last burst2)"]
  show "length (fst (decide_all c Idle (burst1 @ gap @ burst2 @ quiet))) = 1"
    by (simp add: decide_all_append e1 s1 g l2' q)
next
  show "snd (decide c (Confirmed s l) x) = None"
    by (cases x) simp
qed

theorem one_event_for_close_bursts_witness:
  "list_all (\<lambda>x. snd x \<ge> bark_threshold decision_defaults) first_burst \<and>
   list_all (\<lambda>x. snd x < bark_threshold decision_defaults) short_gap \<and>
   list_all (\<lambda>x. snd x \<ge> bark_threshold decision_defaults) second_burst \<and>
   list_all (\<lambda>x. snd x < bark_threshold decision_defaults) silence \<and>
   first_burst \<noteq> [] \<and> second_burst \<noteq> [] \<and>
   list_ex (\<lambda>x. fst x - fst (hd first_burst) \<ge> min_duration_ms decision_defaults) (tl first_burst) \<and>
   sorted (map fst (first_burst @ short_gap @ second_burst)) \<and>
   fst (hd second_burst) - fst (last first_burst) < debounce_ms decision_defaults \<and>
   length (fst (decide_all decision_defaults Idle (first_burst @ short_gap @ second_burst @ silence))) = 1 \<and>
   snd (decide decision_defaults (Confirmed 0 400) (480, 9 / 10)) = None"
proof -
  note defs = first_burst_def short_gap_def second_burst_def silence_def decision_defaults_def
  have b1: "\<forall>x\<in>set first_burst. snd x \<ge> bark_threshold decision_defaults"
    by (simp add: defs)
  have gp: "\<forall>x\<in>set short_gap. snd x < bark_threshold decision_defaults"
    by (simp add: defs)
  have b2: "\<forall>x\<in>set second_burst. snd x \<ge> bark_threshold decision_defaults"
    by (simp add: defs)
  have qt: "\<forall>x\<in>set silence. snd x < bark_threshold decision_defaults"
    by (simp add: defs)
  have ne1: "first_burst \<noteq> []" and ne2: "second_burst \<noteq> []"
    by (simp_all add: defs)
  have qual: "\<exists>x\<in>set (tl first_burst). fst x - fst (hd first_burst) \<ge> min_duration_ms decision_defaults"
    by (simp add: defs)
  have ord: "sorted (map fst (first_burst @ short_gap @ second_burst))"
    by (simp add: defs)
  have sep: "fst (hd second_burst) - fst (last first_burst) < debounce_ms decision_defaults"
    by (simp add: defs)
  from one_event_for_close_bursts [where s = 0 and l = 400 and x = "(480, 9 / 10)",
      OF b1 gp b2 qt ne1 ne2 qual ord sep]
    b1 gp b2 qt ne1 ne2 qual ord sep
  show ?thesis by (simp add: list_all_iff list_ex_iff)
qed

end
